theory Spec2Isabelle
  imports Complex_Main
begin

section \<open>JavaScript values used by the sources\<close>

text \<open>
  A JavaScript string is modelled as a \<^typ>\<open>string\<close>: the list of its code units, of
  which the model has the ones below 256. \<open>length\<close> is the \<open>.length\<close> of the source.
  A call into a library that may throw returns a \<open>completion\<close>.
\<close>

datatype 'a completion = Throws | Returns 'a

text \<open>
  \<open>String.prototype.trim\<close> removes white space and line terminators at both ends.
  Among the code units below 256 these are TAB, LF, VT, FF, CR, SP and NBSP.
\<close>

definition js_whitespace :: "char \<Rightarrow> bool" where
  "js_whitespace c = (of_char c \<in> {9, 10, 11, 12, 13, 32, 160 :: nat})"

definition trim :: "string \<Rightarrow> string" where
  "trim s = rev (dropWhile js_whitespace (rev (dropWhile js_whitespace s)))"

text \<open>\<open>s.replace(/ /g, "+")\<close>: every space becomes a plus sign.\<close>

definition replace_spaces :: "string \<Rightarrow> string" where
  "replace_spaces s = map (\<lambda>c. if c = CHR '' '' then CHR ''+'' else c) s"

section \<open>Compression codec (utils.ts)\<close>

text \<open>
  The two entry points of the external library lz-string that the sources call. The
  library is not part of the repository: it is a parameter of the model.
  \<open>decompressFromEncodedURIComponent\<close> returns a string or \<open>null\<close> (\<open>None\<close>).
\<close>

record lzstring =
  compressToEncodedURIComponent :: "string \<Rightarrow> string"
  decompressFromEncodedURIComponent :: "string \<Rightarrow> string option completion"

text \<open>
  \<^verbatim>\<open>
  export const compressMarkdown = (markdown: string): string => {
    if (!markdown) return "";
    return LZString.compressToEncodedURIComponent(markdown);
  };
  export const decompressMarkdown = (compressed: string): string | null => {
    if (!compressed) return null;
    const safeCompressed = compressed.replace(/ /g, "+");
    return LZString.decompressFromEncodedURIComponent(safeCompressed);
  };
  \<close>
  A string is falsy exactly when it is empty.
\<close>

definition compressMarkdown :: "lzstring \<Rightarrow> string \<Rightarrow> string" where
  "compressMarkdown L markdown =
     (if markdown = [] then [] else compressToEncodedURIComponent L markdown)"

definition decompressMarkdown :: "lzstring \<Rightarrow> string \<Rightarrow> string option completion" where
  "decompressMarkdown L compressed =
     (if compressed = [] then Returns None
      else decompressFromEncodedURIComponent L (replace_spaces compressed))"

text \<open>
  What the decoding of a query value does to an encoded text on its way through a URL,
  as the comment in \<open>decompressMarkdown\<close> has it: ``Browser's URL decoding turns \<open>+\<close>
  into a space''.
\<close>

definition query_decoded :: "string \<Rightarrow> string" where
  "query_decoded s = map (\<lambda>c. if c = CHR ''+'' then CHR '' '' else c) s"

text \<open>
  A stand-in for the library, used only to instantiate examples: it stores the text as
  it is. Every claim is stated for an arbitrary library \<open>L\<close>.
\<close>

definition plain_codec :: lzstring where
  "plain_codec =
     \<lparr>compressToEncodedURIComponent = (\<lambda>s. s),
      decompressFromEncodedURIComponent = (\<lambda>s. Returns (Some s))\<rparr>"

text \<open>A second stand-in: a library that recognises no input as compressed text.\<close>

definition rejecting_codec :: lzstring where
  "rejecting_codec =
     \<lparr>compressToEncodedURIComponent = (\<lambda>s. s),
      decompressFromEncodedURIComponent = (\<lambda>s. Returns None)\<rparr>"

section \<open>Viewer: decoding a share reference (Viewer.tsx)\<close>

text \<open>The component's state, as its three \<open>useState\<close> hooks declare and initialise it.\<close>

record viewer =
  content :: string
  loading :: bool
  error :: "string option"

definition initial_viewer :: viewer where
  "initial_viewer = \<lparr>content = [], loading = True, error = None\<rparr>"

text \<open>The four messages of the effect, word for word.\<close>

definition absent_message :: string where
  "absent_message = ''No content found in the URL. The link might be incomplete.''"

definition empty_message :: string where
  "empty_message = ''The shared link content is empty. Please check the URL.''"

definition corrupt_message :: string where
  "corrupt_message = ''Failed to load content. The link data might be corrupted or invalid.''"

definition exception_message :: string where
  "exception_message = ''An error occurred while processing the content.''"

text \<open>
  The effect of \<open>Viewer\<close>. Its argument is \<open>searchParams.get('c')\<close>: \<open>None\<close> is \<open>null\<close>, the
  parameter being absent.
  \<^verbatim>\<open>
    if (encoded === null) { setError('No content ...'); setLoading(false); return; }
    if (encoded.trim() === '') { setError('The shared link ...'); setLoading(false); return; }
    try {
      const decoded = decompressMarkdown(encoded);
      if (decoded) { setContent(decoded); setError(null); }
      else { setError('Failed to load content. ...'); }
    } catch (e) { setError('An error occurred ...'); }
    finally { setLoading(false); }
  \<close>
\<close>

definition Viewer_effect :: "lzstring \<Rightarrow> string option \<Rightarrow> viewer \<Rightarrow> viewer" where
  "Viewer_effect L encoded v =
     (case encoded of
        None \<Rightarrow> v\<lparr>error := Some absent_message, loading := False\<rparr>
      | Some e \<Rightarrow>
          if trim e = [] then v\<lparr>error := Some empty_message, loading := False\<rparr>
          else
            (case decompressMarkdown L e of
               Returns (Some decoded) \<Rightarrow>
                 if decoded \<noteq> [] then v\<lparr>content := decoded, error := None, loading := False\<rparr>
                 else v\<lparr>error := Some corrupt_message, loading := False\<rparr>
             | Returns None \<Rightarrow> v\<lparr>error := Some corrupt_message, loading := False\<rparr>
             | Throws \<Rightarrow> v\<lparr>error := Some exception_message, loading := False\<rparr>))"

section \<open>Document session: buffer, history and persistence (Editor.tsx)\<close>

datatype toast = ToastSuccess string | ToastError string

text \<open>
  The state of \<open>Editor\<close> that the buffer, the history and the draft live in:
  \<open>markdown\<close> (a state hook), \<open>historyRef.current.past\<close> and \<open>.future\<close> (arrays: the last
  element of the list is the top), \<open>lastSavedMarkdown.current\<close>, the two timers
  \<open>historyTimeoutRef\<close> and \<open>autoSaveTimeoutRef\<close>, the entry \<open>ghost-md-draft\<close> of
  \<open>localStorage\<close>, \<open>fileName\<close>, \<open>lastSavedTime\<close> and the toasts shown so far.
  A pending timer is the time at which it is due together with the value its callback
  closed over; \<open>clock\<close> is the current time in milliseconds.
\<close>

record session =
  markdown :: string
  past :: "string list"
  future :: "string list"
  lastSavedMarkdown :: string
  historyTimeout :: "(nat \<times> string) option"
  autoSaveTimeout :: "(nat \<times> string) option"
  draft :: "string option"
  fileName :: string
  lastSavedTime :: nat
  toasts :: "toast list"
  clock :: nat

text \<open>
  The session at mount. \<open>saved\<close> is \<open>localStorage.getItem(STORAGE_KEY)\<close>;
  \<open>saved ? saved : DEFAULT_MARKDOWN\<close> takes the default for \<open>null\<close> and for the empty
  string. The default document is a parameter. The auto-save effect runs at mount.
\<close>

definition initial_session :: "string \<Rightarrow> string option \<Rightarrow> session" where
  "initial_session default_markdown saved =
     (let md = (case saved of None \<Rightarrow> default_markdown
                | Some t \<Rightarrow> if t = [] then default_markdown else t)
      in \<lparr>markdown = md, past = [], future = [], lastSavedMarkdown = md,
          historyTimeout = None, autoSaveTimeout = Some (1000, md), draft = saved,
          fileName = ''document'', lastSavedTime = 0, toasts = [], clock = 0\<rparr>)"

text \<open>
  \<open>setMarkdown\<close> together with the auto-save effect, which depends on \<open>[markdown]\<close>: when
  the value changes, the component renders again, the effect clears its pending timer
  and sets a new one for 1000 ms later, closing over the new value. Setting the value
  the state already has renders nothing and leaves the timer alone.
  \<^verbatim>\<open>
  useEffect(() => {
    if (autoSaveTimeoutRef.current) clearTimeout(autoSaveTimeoutRef.current);
    autoSaveTimeoutRef.current = window.setTimeout(() => {
      localStorage.setItem(STORAGE_KEY, markdown);
      setLastSavedTime(new Date());
    }, 1000);
    ...
  }, [markdown]);
  \<close>
\<close>

definition setMarkdown :: "string \<Rightarrow> session \<Rightarrow> session" where
  "setMarkdown v s =
     (if v = markdown s then s
      else s\<lparr>markdown := v, autoSaveTimeout := Some (clock s + 1000, v)\<rparr>)"

text \<open>
  \<^verbatim>\<open>
  const pushToHistory = useCallback((value: string) => {
    if (value === lastSavedMarkdown.current) return;
    historyRef.current.past.push(lastSavedMarkdown.current);
    if (historyRef.current.past.length > 50) historyRef.current.past.shift();
    historyRef.current.future = [];
    lastSavedMarkdown.current = value;
  }, []);
  \<close>
\<close>

definition pushToHistory :: "string \<Rightarrow> session \<Rightarrow> session" where
  "pushToHistory v s =
     (if v = lastSavedMarkdown s then s
      else
        (let pushed = past s @ [lastSavedMarkdown s]
         in s\<lparr>past := (if length pushed > 50 then tl pushed else pushed),
              future := [],
              lastSavedMarkdown := v\<rparr>))"

text \<open>
  \<^verbatim>\<open>
  const handleUndo = useCallback(() => {
    if (historyRef.current.past.length === 0) return;
    const previous = historyRef.current.past.pop()!;
    historyRef.current.future.push(markdown);
    lastSavedMarkdown.current = previous;
    setMarkdown(previous);
  }, [markdown]);
  \<close>
  and \<open>handleRedo\<close> with the two stacks exchanged.
\<close>

definition handleUndo :: "session \<Rightarrow> session" where
  "handleUndo s =
     (if past s = [] then s
      else
        (let previous = last (past s)
         in setMarkdown previous
              (s\<lparr>past := butlast (past s),
                 future := future s @ [markdown s],
                 lastSavedMarkdown := previous\<rparr>)))"

definition handleRedo :: "session \<Rightarrow> session" where
  "handleRedo s =
     (if future s = [] then s
      else
        (let next = last (future s)
         in setMarkdown next
              (s\<lparr>future := butlast (future s),
                 past := past s @ [markdown s],
                 lastSavedMarkdown := next\<rparr>)))"

text \<open>
  \<^verbatim>\<open>
  const onMarkdownChange = useCallback((newVal: string) => {
    setMarkdown(newVal);
    if (historyTimeoutRef.current) window.clearTimeout(historyTimeoutRef.current);
    historyTimeoutRef.current = window.setTimeout(() => { pushToHistory(newVal); }, 500);
  }, [pushToHistory]);
  \<close>
\<close>

definition onMarkdownChange :: "string \<Rightarrow> session \<Rightarrow> session" where
  "onMarkdownChange newVal s =
     (setMarkdown newVal s)\<lparr>historyTimeout := Some (clock s + 500, newVal)\<rparr>"

text \<open>
  Time passing. A timer fires once the clock has reached the time it is due; the history
  timer runs \<open>pushToHistory\<close> on the value it closed over, the auto-save timer writes the
  draft and stamps \<open>lastSavedTime\<close> with the time at which it ran, the time it was due.
  The two callbacks touch disjoint parts of the state.
\<close>

definition fire_history :: "session \<Rightarrow> session" where
  "fire_history s =
     (case historyTimeout s of
        None \<Rightarrow> s
      | Some (due, v) \<Rightarrow>
          if due \<le> clock s then pushToHistory v (s\<lparr>historyTimeout := None\<rparr>) else s)"

definition fire_autoSave :: "session \<Rightarrow> session" where
  "fire_autoSave s =
     (case autoSaveTimeout s of
        None \<Rightarrow> s
      | Some (due, v) \<Rightarrow>
          if due \<le> clock s
          then s\<lparr>draft := Some v, lastSavedTime := due, autoSaveTimeout := None\<rparr>
          else s)"

definition advance :: "nat \<Rightarrow> session \<Rightarrow> session" where
  "advance d s = fire_autoSave (fire_history (s\<lparr>clock := clock s + d\<rparr>))"

text \<open>
  A burst of edits: each pair is the time since the previous event and the new text.
\<close>

fun burst :: "(nat \<times> string) list \<Rightarrow> session \<Rightarrow> session" where
  "burst [] s = s"
| "burst ((gap, v) # es) s = burst es (onMarkdownChange v (advance gap s))"

text \<open>Committing a sequence of values one after the other.\<close>

fun commits :: "string list \<Rightarrow> session \<Rightarrow> session" where
  "commits [] s = s"
| "commits (v # vs) s = commits vs (pushToHistory v s)"

subsection \<open>File import\<close>

text \<open>
  A dropped or chosen file: its name and what reading it as text gives: the \<open>load\<close>
  event with \<open>ev.target?.result\<close> (a string, or \<open>null\<close>), or the \<open>error\<close> event.
\<close>

datatype read_outcome = Loaded "string option" | ReadFailed

record js_file =
  name :: string
  reading :: read_outcome

definition endsWith :: "string \<Rightarrow> string \<Rightarrow> bool" where
  "endsWith s suffix =
     (length suffix \<le> length s \<and> drop (length s - length suffix) s = suffix)"

text \<open>
  \<open>file.name.replace(/\.[^/.]+$/, "")\<close>: a final dot followed by one or more characters
  that are neither a dot nor a slash is removed, up to the end of the name.
\<close>

definition strip_extension :: "string \<Rightarrow> string" where
  "strip_extension n =
     (let ext = takeWhile (\<lambda>c. c \<noteq> CHR ''.'') (rev n)
      in if length ext < length n \<and> ext \<noteq> [] \<and> CHR ''/'' \<notin> set ext
         then take (length n - length ext - 1) n
         else n)"

definition show_toast :: "toast \<Rightarrow> session \<Rightarrow> session" where
  "show_toast t s = s\<lparr>toasts := toasts s @ [t]\<rparr>"

text \<open>
  \<open>processFile\<close>, taken at the moment the reader answers.
  \<^verbatim>\<open>
  if (file && (file.name.endsWith(".md") || file.name.endsWith(".txt"))) {
    reader.onload = (ev) => {
        const text = ev.target?.result as string;
        if (text !== null && text !== undefined && text.length >= 0) {
          const newFileName = file.name.replace(/\.[^/.]+$/, "");
          historyRef.current = { past: [], future: [] };
          lastSavedMarkdown.current = text;
          setFileName(newFileName);
          setMarkdown(text);
          toast.success(`Imported: ${file.name}`);
        }
    };
    reader.onerror = () => { toast.error("Failed to read file."); };
    reader.readAsText(file);
  } else { toast.error("Invalid file type."); }
  \<close>
\<close>

definition processFile :: "js_file \<Rightarrow> session \<Rightarrow> session" where
  "processFile f s =
     (if endsWith (name f) ''.md'' \<or> endsWith (name f) ''.txt'' then
        (case reading f of
           Loaded (Some text) \<Rightarrow>
             show_toast (ToastSuccess (''Imported: '' @ name f))
               (setMarkdown text
                  (s\<lparr>past := [], future := [], lastSavedMarkdown := text,
                     fileName := strip_extension (name f)\<rparr>))
         | Loaded None \<Rightarrow> s
         | ReadFailed \<Rightarrow> show_toast (ToastError ''Failed to read file.'') s)
      else show_toast (ToastError ''Invalid file type.'') s)"

subsection \<open>Events of a session\<close>

text \<open>
  Everything that changes the buffer or the history. \<open>Snippet\<close> is \<open>insertSnippet\<close>; its
  argument is the new content that the function splices together from the selection,
  with which it calls \<open>onMarkdownChange\<close> and then \<open>pushToHistory\<close>.
\<close>

datatype event =
  Edit string | Wait nat | Undo | Redo | Import js_file | Snippet string

fun step :: "session \<Rightarrow> event \<Rightarrow> session" where
  "step s (Edit v) = onMarkdownChange v s"
| "step s (Wait d) = advance d s"
| "step s Undo = handleUndo s"
| "step s Redo = handleRedo s"
| "step s (Import f) = processFile f s"
| "step s (Snippet newContent) = pushToHistory newContent (onMarkdownChange newContent s)"

definition run :: "event list \<Rightarrow> session \<Rightarrow> session" where
  "run es s = foldl step s es"

subsection \<open>Predicates on sessions\<close>

text \<open>
  The history timer is either not set or was set by the last event, 500 ms ahead of the
  clock.
\<close>

definition pending_or_idle :: "session \<Rightarrow> bool" where
  "pending_or_idle s =
     (case historyTimeout s of None \<Rightarrow> True | Some (due, v) \<Rightarrow> due = clock s + 500)"

text \<open>The two stacks of the history hold at most 50 snapshots together.\<close>

definition history_bounded :: "session \<Rightarrow> bool" where
  "history_bounded s = (length (past s) + length (future s) \<le> 50)"

section \<open>Scroll synchronisation (Editor.tsx)\<close>










section \<open>Sharing (utils.ts, Editor.tsx)\<close>

definition MAX_SHAREABLE_URL_LENGTH :: nat where
  "MAX_SHAREABLE_URL_LENGTH = 2000"

text \<open>
  What the network answers to the request of \<open>shortenUrl\<close>: the \<open>fetch\<close> promise is
  rejected, or there is a response with its \<open>ok\<close> flag, its status and its body, which
  parses as JSON with the optional string fields \<open>shorturl\<close> and \<open>errormessage\<close> or
  does not parse. The platform's \<open>encodeURIComponent\<close> and \<open>fetch\<close> are parameters.
\<close>

datatype json_body = Unparsable | Body (shorturl: "string option") (errormessage: "string option")

datatype fetch_answer = Rejected | Response (ok: bool) (status: nat) (json: json_body)

record network =
  encodeURIComponent :: "string \<Rightarrow> string"
  fetch :: "string \<Rightarrow> fetch_answer"

datatype shorten_error = FetchRejected | HttpError nat | JsonError | ServiceError string

text \<open>
  \<^verbatim>\<open>
  export const shortenUrl = async (longUrl: string): Promise<string> => {
    const encoded = encodeURIComponent(longUrl);
    const apiUrl = `https://is.gd/create.php?format=json&url=${encoded}`;
    const proxyUrl = `https://corsproxy.io/?${encodeURIComponent(apiUrl)}`;
    const response = await fetch(proxyUrl);
    if (!response.ok) { throw new Error(`HTTP error: ${response.status}`); }
    const data = await response.json();
    if (data.shorturl) { return data.shorturl; }
    throw new Error(data.errormessage || 'Failed to shorten URL');
  };
  \<close>
  \<open>Inl\<close> is the error thrown, \<open>Inr\<close> the short URL returned.
\<close>

definition shortenUrl :: "network \<Rightarrow> string \<Rightarrow> shorten_error + string" where
  "shortenUrl N longUrl =
     (let encoded = encodeURIComponent N longUrl;
          apiUrl = ''https://is.gd/create.php?format=json&url='' @ encoded;
          proxyUrl = ''https://corsproxy.io/?'' @ encodeURIComponent N apiUrl
      in case fetch N proxyUrl of
           Rejected \<Rightarrow> Inl FetchRejected
         | Response rok rstatus rbody \<Rightarrow>
             if \<not> rok then Inl (HttpError rstatus)
             else
               (case rbody of
                  Unparsable \<Rightarrow> Inl JsonError
                | Body su em \<Rightarrow>
                    (case su of
                       Some u \<Rightarrow>
                         if u \<noteq> [] then Inr u
                         else Inl (ServiceError
                                (case em of Some m \<Rightarrow> if m \<noteq> [] then m else ''Failed to shorten URL''
                                 | None \<Rightarrow> ''Failed to shorten URL''))
                     | None \<Rightarrow>
                         Inl (ServiceError
                                (case em of Some m \<Rightarrow> if m \<noteq> [] then m else ''Failed to shorten URL''
                                 | None \<Rightarrow> ''Failed to shorten URL'')))))"

text \<open>The state hooks of \<open>Editor\<close> that \<open>handleShare\<close> writes.\<close>

record share_dialog =
  shareUrl :: string
  isUrlTooLarge :: bool
  isShortening :: bool
  isShareModalOpen :: bool
  share_toasts :: "toast list"

definition initial_share_dialog :: share_dialog where
  "initial_share_dialog =
     \<lparr>shareUrl = [], isUrlTooLarge = False, isShortening = False,
      isShareModalOpen = False, share_toasts = []\<rparr>"

text \<open>
  \<open>handleShare\<close>, taken at the moment the shortening call has settled; \<open>origin\<close> is
  \<open>window.location.origin\<close> and \<open>md\<close> the buffer.
  \<^verbatim>\<open>
    const compressed = compressMarkdown(markdown);
    const generatedUrl = `${window.location.origin}/#/view?c=${compressed}`;
    if (generatedUrl.length > MAX_SHAREABLE_URL_LENGTH) {
      setIsShortening(true); setIsShareModalOpen(true);
      try {
        const shortUrl = await shortenUrl(generatedUrl);
        setShareUrl(shortUrl); setIsUrlTooLarge(false);
        toast.success("Short link generated!");
      } catch (error) {
        setShareUrl(generatedUrl); setIsUrlTooLarge(true);
        toast.error("Document too large for URL sharing");
      } finally { setIsShortening(false); }
    } else {
      setShareUrl(generatedUrl); setIsUrlTooLarge(false); setIsShareModalOpen(true);
      toast.success("Sharable link generated!");
    }
  \<close>
\<close>

definition generatedUrl :: "lzstring \<Rightarrow> string \<Rightarrow> string \<Rightarrow> string" where
  "generatedUrl L origin md = origin @ ''/#/view?c='' @ compressMarkdown L md"

definition handleShare ::
  "lzstring \<Rightarrow> network \<Rightarrow> string \<Rightarrow> string \<Rightarrow> share_dialog \<Rightarrow> share_dialog" where
  "handleShare L N origin md st =
     (let url = generatedUrl L origin md
      in if length url > MAX_SHAREABLE_URL_LENGTH then
           (case shortenUrl N url of
              Inr shortUrl \<Rightarrow>
                st\<lparr>shareUrl := shortUrl, isUrlTooLarge := False, isShortening := False,
                   isShareModalOpen := True,
                   share_toasts := share_toasts st @ [ToastSuccess ''Short link generated!'']\<rparr>
            | Inl err \<Rightarrow>
                st\<lparr>shareUrl := url, isUrlTooLarge := True, isShortening := False,
                   isShareModalOpen := True,
                   share_toasts := share_toasts st
                     @ [ToastError ''Document too large for URL sharing'']\<rparr>)
         else
           st\<lparr>shareUrl := url, isUrlTooLarge := False, isShareModalOpen := True,
              share_toasts := share_toasts st @ [ToastSuccess ''Sharable link generated!'']\<rparr>)"

text \<open>
  Stand-ins for the network, used only to instantiate examples: one whose service
  answers every request with the given body, one whose requests all fail.
\<close>

definition answering_network :: "json_body \<Rightarrow> network" where
  "answering_network b =
     \<lparr>encodeURIComponent = (\<lambda>u. u), fetch = (\<lambda>u. Response True 200 b)\<rparr>"

definition failing_network :: network where
  "failing_network = \<lparr>encodeURIComponent = (\<lambda>u. u), fetch = (\<lambda>u. Rejected)\<rparr>"

section \<open>Search (Editor.tsx)\<close>

text \<open>
  The platform's regular expressions are a parameter. \<open>compile term ignoreCase\<close> is
  \<open>new RegExp(term, ignoreCase ? "gi" : "g")\<close>: \<open>None\<close> when the constructor throws a
  \<open>SyntaxError\<close>. \<open>match_from r text i\<close> is the matcher run on \<open>text\<close> from position \<open>i\<close>:
  \<open>None\<close> when nothing matches at or after \<open>i\<close>, else the index of the match and the
  length of the matched text.
\<close>

record 'r regexp_engine =
  compile :: "string \<Rightarrow> bool \<Rightarrow> 'r option"
  match_from :: "'r \<Rightarrow> string \<Rightarrow> nat \<Rightarrow> (nat \<times> nat) option"

record match_span =
  start :: nat
  end' :: nat

text \<open>
  The loop of \<open>performSearch\<close>, with \<open>regex.lastIndex\<close> as the argument \<open>lastIndex\<close>:
  \<^verbatim>\<open>
        while ((match = regex.exec(text)) !== null) {
          matches.push({ start: match.index, end: match.index + match[0].length });
          if (match.index === regex.lastIndex) regex.lastIndex++;
        }
  \<close>
  \<open>exec\<close> on a global expression fails at once when \<open>lastIndex\<close> is beyond the end of
  the text, else runs the matcher from \<open>lastIndex\<close>; on a match it sets \<open>lastIndex\<close> to
  the end of the match. The loop need not return for an arbitrary matcher, so its
  result is an option: \<open>None\<close> is a loop that runs forever.
\<close>

partial_function (option) search_loop ::
  "'r regexp_engine \<Rightarrow> 'r \<Rightarrow> string \<Rightarrow> nat \<Rightarrow> match_span list \<Rightarrow> match_span list option"
where
  "search_loop E r text lastIndex matches =
     (if lastIndex > length text then Some matches
      else
        (case match_from E r text lastIndex of
           None \<Rightarrow> Some matches
         | Some (index, len) \<Rightarrow>
             search_loop E r text
               (if index = index + len then index + len + 1 else index + len)
               (matches @ [\<lparr>start = index, end' = index + len\<rparr>])))"

text \<open>
  \<^verbatim>\<open>
    (text: string, term: string, matchCase: boolean) => {
      if (!term) return [];
      try {
        const regex = new RegExp(term, matchCase ? "g" : "gi");
        const matches = [];
        ... the loop ...
        return matches;
      } catch (e) { return []; }
    }
  \<close>
\<close>

definition performSearch ::
  "'r regexp_engine \<Rightarrow> string \<Rightarrow> string \<Rightarrow> bool \<Rightarrow> match_span list option" where
  "performSearch E text term matchCase =
     (if term = [] then Some []
      else
        (case compile E term (\<not> matchCase) of
           None \<Rightarrow> Some []
         | Some regex \<Rightarrow> search_loop E regex text 0 []))"





text \<open>
  A second stand-in: an expression that matches the empty string wherever it is tried,
  as \<open>a*\<close> does on a text without \<open>a\<close>.
\<close>

definition empty_match_engine :: "unit regexp_engine" where
  "empty_match_engine =
     \<lparr>compile = (\<lambda>term ignoreCase. Some ()),
      match_from = (\<lambda>r text i. Some (i, 0))\<rparr>"

section \<open>Round trip of the codec\<close>

lemma replace_spaces_id: "CHR '' '' \<notin> set s \<Longrightarrow> replace_spaces s = s"
  by (induction s) (auto simp: replace_spaces_def)

lemma replace_spaces_query_decoded:
  "CHR '' '' \<notin> set s \<Longrightarrow> replace_spaces (query_decoded s) = s"
  by (induction s) (auto simp: replace_spaces_def query_decoded_def)

lemma query_decoded_Nil_iff: "query_decoded s = [] \<longleftrightarrow> s = []"
  by (simp add: query_decoded_def)

text \<open>
  C1, as stated, at the empty buffer: the encoding of the empty text is the empty
  string, and decoding the empty string yields \<open>null\<close>, not the empty text. This holds
  whatever the library does, since neither guard calls it.
\<close>

theorem roundtrip_empty_counterexample:
  "decompressMarkdown plain_codec (compressMarkdown plain_codec []) = Returns None
   \<and> decompressMarkdown plain_codec (compressMarkdown plain_codec []) \<noteq> Returns (Some [])"
  by (simp add: decompressMarkdown_def compressMarkdown_def)

text \<open>
  C1, amended: for every non-empty text \<open>t\<close> that the library itself round-trips to a
  non-empty encoding without spaces (the library's alphabet has \<open>+\<close> and no space),
  decoding the encoding of \<open>t\<close> returns \<open>t\<close>, also after the encoding went through a
  query, where its \<open>+\<close> became spaces. For the empty text the encoding is the empty
  string and its decoding is \<open>null\<close>.
\<close>

theorem roundtrip_nonempty:
  assumes "t \<noteq> []"
    and "decompressFromEncodedURIComponent L (compressToEncodedURIComponent L t) = Returns (Some t)"
    and "compressToEncodedURIComponent L t \<noteq> []"
    and "CHR '' '' \<notin> set (compressToEncodedURIComponent L t)"
  shows "decompressMarkdown L (compressMarkdown L t) = Returns (Some t)
         \<and> decompressMarkdown L (query_decoded (compressMarkdown L t)) = Returns (Some t)
         \<and> compressMarkdown L [] = []
         \<and> decompressMarkdown L [] = Returns None"
  using assms
  by (simp add: decompressMarkdown_def compressMarkdown_def replace_spaces_id
      replace_spaces_query_decoded query_decoded_Nil_iff)

theorem roundtrip_nonempty_witness:
  "''a+b'' \<noteq> []
   \<and> decompressFromEncodedURIComponent plain_codec
        (compressToEncodedURIComponent plain_codec ''a+b'') = Returns (Some ''a+b'')
   \<and> compressToEncodedURIComponent plain_codec ''a+b'' \<noteq> []
   \<and> CHR '' '' \<notin> set (compressToEncodedURIComponent plain_codec ''a+b'')
   \<and> decompressMarkdown plain_codec (compressMarkdown plain_codec ''a+b'') = Returns (Some ''a+b'')
   \<and> query_decoded (compressMarkdown plain_codec ''a+b'') = ''a b''
   \<and> decompressMarkdown plain_codec ''a b'' = Returns (Some ''a+b'')"
proof -
  have h1: "''a+b'' \<noteq> []" by simp
  have h2: "decompressFromEncodedURIComponent plain_codec
        (compressToEncodedURIComponent plain_codec ''a+b'') = Returns (Some ''a+b'')"
    by (simp add: plain_codec_def)
  have h3: "compressToEncodedURIComponent plain_codec ''a+b'' \<noteq> []"
    by (simp add: plain_codec_def)
  have h4: "CHR '' '' \<notin> set (compressToEncodedURIComponent plain_codec ''a+b'')"
    by (simp add: plain_codec_def)
  have q: "query_decoded (compressMarkdown plain_codec ''a+b'') = ''a b''"
    by (simp add: query_decoded_def compressMarkdown_def plain_codec_def)
  from roundtrip_nonempty [OF h1 h2 h3 h4] h1 h2 h3 h4 q show ?thesis by simp
qed

section \<open>Decoding a share reference\<close>

lemma all_dropWhile: "(\<forall>x\<in>set (dropWhile P xs). P x) \<longleftrightarrow> list_all P xs"
  by (induction xs) auto

lemma dropWhile_Nil_iff: "dropWhile P xs = [] \<longleftrightarrow> list_all P xs"
  by (induction xs) auto

lemma trim_empty_iff: "trim e = [] \<longleftrightarrow> list_all js_whitespace e"
  unfolding trim_def by (simp add: dropWhile_Nil_iff all_dropWhile list_all_iff)

lemma messages_distinct:
  "distinct [absent_message, empty_message, corrupt_message, exception_message]"
  by (simp add: absent_message_def empty_message_def corrupt_message_def exception_message_def)

text \<open>
  C2, as stated, at a value that is one space (the query \<open>c=+\<close> or \<open>c=%20\<close>): the value
  is present and not empty and does not decompress to text, yet the failure shown is
  the one of an empty value, not the one of a corrupt value.
\<close>

theorem whitespace_value_counterexample:
  "Viewer_effect rejecting_codec (Some '' '') initial_viewer
     = initial_viewer\<lparr>error := Some empty_message, loading := False\<rparr>
   \<and> '' '' \<noteq> []
   \<and> decompressMarkdown rejecting_codec '' '' = Returns None
   \<and> error (Viewer_effect rejecting_codec (Some '' '') initial_viewer) \<noteq> Some corrupt_message"
  by (simp add: Viewer_effect_def trim_def js_whitespace_def decompressMarkdown_def
      rejecting_codec_def empty_message_def corrupt_message_def)

text \<open>
  C2, amended: a missing \<open>c\<close> parameter yields the \<open>absent\<close> message; a value that is
  empty or has white space only (exactly the values that \<open>trim\<close> empties) yields the
  \<open>empty\<close> message; a value with another character yields the decoded text as content
  when decompression returns a non-empty text, the \<open>corrupt\<close> message when it returns
  \<open>null\<close> or the empty text, and a fourth message when it throws. The four messages
  are pairwise distinct.
\<close>

theorem Viewer_effect_outcomes:
  "Viewer_effect L None v = v\<lparr>error := Some absent_message, loading := False\<rparr>
   \<and> (list_all js_whitespace e \<longrightarrow>
        Viewer_effect L (Some e) v = v\<lparr>error := Some empty_message, loading := False\<rparr>)
   \<and> (\<not> list_all js_whitespace e
        \<and> decompressFromEncodedURIComponent L (replace_spaces e) = Returns (Some t) \<and> t \<noteq> [] \<longrightarrow>
        Viewer_effect L (Some e) v = v\<lparr>content := t, error := None, loading := False\<rparr>)
   \<and> (\<not> list_all js_whitespace e
        \<and> decompressFromEncodedURIComponent L (replace_spaces e) \<in> {Returns None, Returns (Some [])} \<longrightarrow>
        Viewer_effect L (Some e) v = v\<lparr>error := Some corrupt_message, loading := False\<rparr>)
   \<and> (\<not> list_all js_whitespace e
        \<and> decompressFromEncodedURIComponent L (replace_spaces e) = Throws \<longrightarrow>
        Viewer_effect L (Some e) v = v\<lparr>error := Some exception_message, loading := False\<rparr>)
   \<and> distinct [absent_message, empty_message, corrupt_message, exception_message]
   \<and> (trim e = [] \<longleftrightarrow> list_all js_whitespace e)"
proof -
  have ne: "\<not> list_all js_whitespace e \<Longrightarrow> e \<noteq> []" by auto
  show ?thesis
    using ne
    by (auto simp: Viewer_effect_def trim_empty_iff decompressMarkdown_def messages_distinct
        simp del: distinct.simps)
qed

theorem Viewer_effect_outcomes_witness:
  "list_all js_whitespace '' ''
   \<and> Viewer_effect plain_codec (Some '' '') initial_viewer
       = initial_viewer\<lparr>error := Some empty_message, loading := False\<rparr>
   \<and> \<not> list_all js_whitespace ''abc''
   \<and> decompressFromEncodedURIComponent plain_codec (replace_spaces ''abc'') = Returns (Some ''abc'')
   \<and> Viewer_effect plain_codec (Some ''abc'') initial_viewer
       = initial_viewer\<lparr>content := ''abc'', error := None, loading := False\<rparr>
   \<and> decompressFromEncodedURIComponent rejecting_codec (replace_spaces ''abc'')
       \<in> {Returns None, Returns (Some [])}
   \<and> Viewer_effect rejecting_codec (Some ''abc'') initial_viewer
       = initial_viewer\<lparr>error := Some corrupt_message, loading := False\<rparr>
   \<and> decompressFromEncodedURIComponent
         (plain_codec\<lparr>decompressFromEncodedURIComponent := (\<lambda>s. Throws)\<rparr>)
         (replace_spaces ''abc'') = Throws
   \<and> Viewer_effect (plain_codec\<lparr>decompressFromEncodedURIComponent := (\<lambda>s. Throws)\<rparr>)
         (Some ''abc'') initial_viewer
       = initial_viewer\<lparr>error := Some exception_message, loading := False\<rparr>"
proof -
  have w: "list_all js_whitespace '' ''" by (simp add: js_whitespace_def)
  have n: "\<not> list_all js_whitespace ''abc''" by (simp add: js_whitespace_def)
  have p: "decompressFromEncodedURIComponent plain_codec (replace_spaces ''abc'') = Returns (Some ''abc'')"
    by (simp add: plain_codec_def replace_spaces_def)
  have r: "decompressFromEncodedURIComponent rejecting_codec (replace_spaces ''abc'')
       \<in> {Returns None, Returns (Some [])}"
    by (simp add: rejecting_codec_def)
  have t: "decompressFromEncodedURIComponent
         (plain_codec\<lparr>decompressFromEncodedURIComponent := (\<lambda>s. Throws)\<rparr>)
         (replace_spaces ''abc'') = Throws"
    by simp
  show ?thesis
    using w n p r t
      Viewer_effect_outcomes [of plain_codec initial_viewer "'' ''" "''abc''"]
      Viewer_effect_outcomes [of plain_codec initial_viewer "''abc''" "''abc''"]
      Viewer_effect_outcomes [of rejecting_codec initial_viewer "''abc''" "''abc''"]
      Viewer_effect_outcomes [of "plain_codec\<lparr>decompressFromEncodedURIComponent := (\<lambda>s. Throws)\<rparr>"
        initial_viewer "''abc''" "''abc''"]
    by simp
qed

section \<open>History and persistence of a session\<close>

lemma fire_autoSave_history [simp]:
  "past (fire_autoSave s) = past s" "future (fire_autoSave s) = future s"
  "lastSavedMarkdown (fire_autoSave s) = lastSavedMarkdown s"
  "markdown (fire_autoSave s) = markdown s" "historyTimeout (fire_autoSave s) = historyTimeout s"
  "clock (fire_autoSave s) = clock s"
  by (simp_all add: fire_autoSave_def split: option.splits)

lemma pushToHistory_other [simp]:
  "markdown (pushToHistory v s) = markdown s" "historyTimeout (pushToHistory v s) = historyTimeout s"
  "autoSaveTimeout (pushToHistory v s) = autoSaveTimeout s" "draft (pushToHistory v s) = draft s"
  "clock (pushToHistory v s) = clock s" "lastSavedMarkdown (pushToHistory v s) = v"
  by (simp_all add: pushToHistory_def Let_def)

lemma pushToHistory_cong:
  "past s = past s' \<Longrightarrow> lastSavedMarkdown s = lastSavedMarkdown s' \<Longrightarrow> future s = future s' \<Longrightarrow>
   past (pushToHistory v s) = past (pushToHistory v s') \<and> future (pushToHistory v s) = future (pushToHistory v s')"
  by (simp add: pushToHistory_def Let_def)

text \<open>An edit followed by a quiet period of at least 500 ms is one commit of the edit.\<close>
lemma edit_then_quiet:
  assumes "500 \<le> d"
  shows "past (advance d (onMarkdownChange v s)) = past (pushToHistory v s)"
    and "future (advance d (onMarkdownChange v s)) = future (pushToHistory v s)"
    and "lastSavedMarkdown (advance d (onMarkdownChange v s)) = v"
    and "markdown (advance d (onMarkdownChange v s)) = v"
    and "historyTimeout (advance d (onMarkdownChange v s)) = None"
  using assms
  by (simp_all add: advance_def onMarkdownChange_def setMarkdown_def fire_history_def
      pushToHistory_def Let_def)

lemma past_push_last:
  "v \<noteq> lastSavedMarkdown s \<Longrightarrow> past (pushToHistory v s) \<noteq> [] \<and> last (past (pushToHistory v s)) = lastSavedMarkdown s"
  by (cases "past s") (auto simp: pushToHistory_def Let_def)

lemma quiet_gap:
  assumes "pending_or_idle s" "gap < 500"
  shows "past (advance gap s) = past s" "future (advance gap s) = future s"
    "lastSavedMarkdown (advance gap s) = lastSavedMarkdown s"
  using assms
  by (auto simp: pending_or_idle_def advance_def fire_history_def split: option.splits)

lemma edit_pending:
  "past (onMarkdownChange v s) = past s" "future (onMarkdownChange v s) = future s"
  "lastSavedMarkdown (onMarkdownChange v s) = lastSavedMarkdown s"
  "markdown (onMarkdownChange v s) = v"
  "historyTimeout (onMarkdownChange v s) = Some (clock s + 500, v)"
  "clock (onMarkdownChange v s) = clock s"
  by (simp_all add: onMarkdownChange_def setMarkdown_def)

lemma burst_pending:
  assumes "es \<noteq> []" "\<forall>e \<in> set (tl es). fst e < 500"
    "historyTimeout s = None \<or> fst (hd es) < 500 \<and> pending_or_idle s"
  shows "past (burst es s) = past s \<and> future (burst es s) = future s
       \<and> lastSavedMarkdown (burst es s) = lastSavedMarkdown s
       \<and> markdown (burst es s) = snd (last es)
       \<and> historyTimeout (burst es s) = Some (clock (burst es s) + 500, snd (last es))"
  using assms
proof (induction es arbitrary: s)
  case Nil
  then show ?case by simp
next
  case (Cons e es)
  obtain gap v where e: "e = (gap, v)" by (cases e)
  define s1 where "s1 = onMarkdownChange v (advance gap s)"
  have keep: "past s1 = past s \<and> future s1 = future s \<and> lastSavedMarkdown s1 = lastSavedMarkdown s"
  proof -
    from Cons.prems(3) have "past (advance gap s) = past s \<and> future (advance gap s) = future s
        \<and> lastSavedMarkdown (advance gap s) = lastSavedMarkdown s"
    proof
      assume "historyTimeout s = None"
      then show ?thesis by (simp add: advance_def fire_history_def)
    next
      assume "fst (hd (e # es)) < 500 \<and> pending_or_idle s"
      then show ?thesis using e quiet_gap [of s gap] by simp
    qed
    then show ?thesis unfolding s1_def by (simp add: edit_pending)
  qed
  have pend: "historyTimeout s1 = Some (clock s1 + 500, v)" "markdown s1 = v"
    unfolding s1_def by (simp_all add: edit_pending)
  show ?case
  proof (cases es)
    case Nil
    then show ?thesis using keep pend e s1_def by simp
  next
    case (Cons e' es')
    have "past (burst es s1) = past s1 \<and> future (burst es s1) = future s1
       \<and> lastSavedMarkdown (burst es s1) = lastSavedMarkdown s1
       \<and> markdown (burst es s1) = snd (last es)
       \<and> historyTimeout (burst es s1) = Some (clock (burst es s1) + 500, snd (last es))"
    proof (rule Cons.IH)
      show "es \<noteq> []" using Cons by simp
      show "\<forall>e\<in>set (tl es). fst e < 500" using Cons.prems(2) Cons by simp
      show "historyTimeout s1 = None \<or> fst (hd es) < 500 \<and> pending_or_idle s1"
        using Cons.prems(2) Cons pend by (simp add: pending_or_idle_def)
    qed
    then show ?thesis using keep e s1_def Cons by simp
  qed
qed

lemma fire_pending:
  assumes "historyTimeout s = Some (clock s + 500, v)" "500 \<le> d"
  shows "past (advance d s) = past (pushToHistory v s)"
    "future (advance d s) = future (pushToHistory v s)"
    "lastSavedMarkdown (advance d s) = v"
    "markdown (advance d s) = markdown s"
    "historyTimeout (advance d s) = None"
  using assms
  by (simp_all add: advance_def fire_history_def pushToHistory_def Let_def)

text \<open>
  C3, as stated, at a burst of two edits that ends on the text of the last checkpoint
  (a character typed and deleted again within the window): after the burst the history
  has no new checkpoint.
\<close>

theorem burst_ending_at_checkpoint_counterexample:
  "past (initial_session ''doc'' None) = []
   \<and> lastSavedMarkdown (initial_session ''doc'' None) = ''doc''
   \<and> past (advance 500 (burst [(0, ''docs''), (100, ''doc'')] (initial_session ''doc'' None))) = []
   \<and> historyTimeout (advance 500 (burst [(0, ''docs''), (100, ''doc'')] (initial_session ''doc'' None)))
       = None"
  by (simp add: initial_session_def Let_def advance_def onMarkdownChange_def setMarkdown_def
      fire_history_def fire_autoSave_def pushToHistory_def Let_def)

text \<open>
  C3, amended: for a burst of one or more edits, each within 500 ms of the one before,
  starting with no history timer pending, the edits themselves leave the history as it
  was (each restarts the timer), and once 500 ms have passed after the last one the
  history is that of a single \<open>pushToHistory\<close> of the last text: no new checkpoint
  when the last text equals the last committed one, exactly one (the last committed
  text, the oldest snapshot dropped beyond 50) otherwise.
\<close>

theorem burst_coalesces:
  assumes "es \<noteq> []" and "\<forall>e \<in> set (tl es). fst e < 500"
    and "historyTimeout s = None" and "500 \<le> d"
  shows "past (burst es s) = past s \<and> future (burst es s) = future s
       \<and> lastSavedMarkdown (burst es s) = lastSavedMarkdown s
       \<and> markdown (advance d (burst es s)) = snd (last es)
       \<and> past (advance d (burst es s)) = past (pushToHistory (snd (last es)) s)
       \<and> future (advance d (burst es s)) = future (pushToHistory (snd (last es)) s)
       \<and> lastSavedMarkdown (advance d (burst es s)) = snd (last es)
       \<and> historyTimeout (advance d (burst es s)) = None
       \<and> (snd (last es) = lastSavedMarkdown s \<longrightarrow> past (advance d (burst es s)) = past s)
       \<and> (snd (last es) \<noteq> lastSavedMarkdown s \<longrightarrow>
            past (advance d (burst es s))
              = (if length (past s) < 50 then past s @ [lastSavedMarkdown s]
                 else tl (past s @ [lastSavedMarkdown s])))"
proof -
  from burst_pending [OF assms(1,2)] assms(3)
  have b: "past (burst es s) = past s" "future (burst es s) = future s"
       "lastSavedMarkdown (burst es s) = lastSavedMarkdown s"
       "markdown (burst es s) = snd (last es)"
       "historyTimeout (burst es s) = Some (clock (burst es s) + 500, snd (last es))"
    by simp_all
  note f = fire_pending [OF b(5) assms(4)]
  have c: "past (pushToHistory (snd (last es)) (burst es s)) = past (pushToHistory (snd (last es)) s)"
      "future (pushToHistory (snd (last es)) (burst es s)) = future (pushToHistory (snd (last es)) s)"
    using pushToHistory_cong [OF b(1) b(3) b(2)] by simp_all
  have e1: "snd (last es) = lastSavedMarkdown s \<longrightarrow> past (pushToHistory (snd (last es)) s) = past s"
    by (simp add: pushToHistory_def)
  have e2: "snd (last es) \<noteq> lastSavedMarkdown s \<longrightarrow>
      past (pushToHistory (snd (last es)) s)
        = (if length (past s) < 50 then past s @ [lastSavedMarkdown s]
           else tl (past s @ [lastSavedMarkdown s]))"
    by (auto simp: pushToHistory_def Let_def)
  show ?thesis using b f c e1 e2 by simp
qed

theorem burst_coalesces_witness:
  "[(0, ''a''), (100, ''ab''), (499, ''abc'')] \<noteq> []
   \<and> list_all (\<lambda>e. fst e < 500) (tl [(0, ''a''), (100, ''ab''), (499::nat, ''abc'')])
   \<and> historyTimeout (initial_session ''doc'' None) = None
   \<and> (500::nat) \<le> 500
   \<and> past (burst [(0, ''a''), (100, ''ab''), (499, ''abc'')] (initial_session ''doc'' None)) = []
   \<and> past (advance 500 (burst [(0, ''a''), (100, ''ab''), (499, ''abc'')]
        (initial_session ''doc'' None))) = [''doc'']
   \<and> lastSavedMarkdown (advance 500 (burst [(0, ''a''), (100, ''ab''), (499, ''abc'')]
        (initial_session ''doc'' None))) = ''abc''"
proof -
  have h1: "[(0::nat, ''a''), (100, ''ab''), (499, ''abc'')] \<noteq> []" by simp
  have h2: "\<forall>e \<in> set (tl [(0, ''a''), (100, ''ab''), (499::nat, ''abc'')]). fst e < 500" by simp
  have h3: "historyTimeout (initial_session ''doc'' None) = None"
    by (simp add: initial_session_def Let_def)
  have h4: "(500::nat) \<le> 500" by simp
  have p: "past (initial_session ''doc'' None) = []"
      "lastSavedMarkdown (initial_session ''doc'' None) = ''doc''"
    by (simp_all add: initial_session_def Let_def)
  from burst_coalesces [OF h1 h2 h3 h4] h1 h2 h3 h4 p show ?thesis
    by (simp add: pushToHistory_def)
qed

text \<open>
  C4: for distinct texts \<open>a\<close> and \<open>b\<close>, after an edit to \<open>a\<close>, its commit (the timer
  firing, 500 ms or more later), an edit to \<open>b\<close> and its commit, \<open>handleUndo\<close> makes the
  buffer \<open>a\<close> and a following \<open>handleRedo\<close> makes it \<open>b\<close>; \<open>handleUndo\<close> with an empty past
  and \<open>handleRedo\<close> with an empty future return the state as it is.
\<close>

theorem undo_redo_inverse:
  "(a \<noteq> b \<and> 500 \<le> d1 \<and> 500 \<le> d2 \<longrightarrow>
      markdown (handleUndo (advance d2 (onMarkdownChange b (advance d1 (onMarkdownChange a s))))) = a
    \<and> markdown (handleRedo (handleUndo
        (advance d2 (onMarkdownChange b (advance d1 (onMarkdownChange a s)))))) = b)
   \<and> (past s = [] \<longrightarrow> handleUndo s = s)
   \<and> (future s = [] \<longrightarrow> handleRedo s = s)"
proof -
  have main: "markdown (handleUndo (advance d2 (onMarkdownChange b (advance d1 (onMarkdownChange a s))))) = a
    \<and> markdown (handleRedo (handleUndo
        (advance d2 (onMarkdownChange b (advance d1 (onMarkdownChange a s)))))) = b"
    if ab: "a \<noteq> b" and d1: "500 \<le> d1" and d2: "500 \<le> d2"
  proof -
    define s1 where "s1 = advance d1 (onMarkdownChange a s)"
    define s2 where "s2 = advance d2 (onMarkdownChange b s1)"
    have l1: "lastSavedMarkdown s1 = a"
      unfolding s1_def using d1 by (rule edit_then_quiet)
    have p2: "past s2 = past (pushToHistory b s1)" and m2: "markdown s2 = b"
      unfolding s2_def using d2 by (rule edit_then_quiet)+
    from past_push_last [of b s1] ab l1 p2
    have ne: "past s2 \<noteq> []" and la: "last (past s2) = a" by auto
    define s3 where "s3 = handleUndo s2"
    have m3: "markdown s3 = a" and f3: "future s3 = future s2 @ [b]"
      unfolding s3_def using ne la m2
      by (auto simp: handleUndo_def setMarkdown_def Let_def)
    have "markdown (handleRedo s3) = b"
      using f3 by (auto simp: handleRedo_def setMarkdown_def Let_def)
    with m3 show ?thesis unfolding s3_def s2_def s1_def by simp
  qed
  have u: "past s = [] \<longrightarrow> handleUndo s = s" by (simp add: handleUndo_def)
  have r: "future s = [] \<longrightarrow> handleRedo s = s" by (simp add: handleRedo_def)
  from main u r show ?thesis by blast
qed

theorem undo_redo_inverse_witness:
  "''alpha'' \<noteq> ''beta'' \<and> (500::nat) \<le> 500 \<and> (500::nat) \<le> 700
   \<and> markdown (handleUndo (advance 700 (onMarkdownChange ''beta''
        (advance 500 (onMarkdownChange ''alpha'' (initial_session ''doc'' None)))))) = ''alpha''
   \<and> markdown (handleRedo (handleUndo (advance 700 (onMarkdownChange ''beta''
        (advance 500 (onMarkdownChange ''alpha'' (initial_session ''doc'' None))))))) = ''beta''
   \<and> past (initial_session ''doc'' None) = []
   \<and> handleUndo (initial_session ''doc'' None) = initial_session ''doc'' None
   \<and> future (initial_session ''doc'' None) = []
   \<and> handleRedo (initial_session ''doc'' None) = initial_session ''doc'' None"
proof -
  have h: "''alpha'' \<noteq> ''beta''" "(500::nat) \<le> 500" "(500::nat) \<le> 700" by simp_all
  have e: "past (initial_session ''doc'' None) = []" "future (initial_session ''doc'' None) = []"
    by (simp_all add: initial_session_def Let_def)
  from undo_redo_inverse [of "''alpha''" "''beta''" 500 700 "initial_session ''doc'' None"] h e
  show ?thesis by simp
qed

lemma pushToHistory_length:
  "length (past s) \<le> 50 \<Longrightarrow> length (past (pushToHistory v s)) \<le> 50"
  by (auto simp: pushToHistory_def Let_def)

lemma pushToHistory_past:
  "v \<noteq> lastSavedMarkdown s \<Longrightarrow>
   past (pushToHistory v s) =
     (if length (past s) < 50 then past s @ [lastSavedMarkdown s]
      else tl (past s @ [lastSavedMarkdown s]))"
  by (auto simp: pushToHistory_def Let_def)

lemma drop_tl_window:
  assumes "50 < length h"
  shows "drop (length (tl h) - 50) (tl h) = drop (length h - 50) h"
proof -
  from assms obtain x xs where h: "h = x # xs" by (cases h) auto
  with assms have "Suc (length xs) - 50 = Suc (length xs - 50)" by simp
  then show ?thesis using h by simp
qed

lemma distinct_imp_distinct_adj: "distinct xs \<Longrightarrow> distinct_adj xs"
  by (induction xs) (auto simp: distinct_adj_Cons)

lemma commits_window:
  assumes "length (past s) \<le> 50" "distinct_adj (lastSavedMarkdown s # vs)"
  shows "past (commits vs s) =
           drop (length (past s @ butlast (lastSavedMarkdown s # vs)) - 50)
             (past s @ butlast (lastSavedMarkdown s # vs))"
  using assms
proof (induction vs arbitrary: s)
  case Nil
  then show ?case by simp
next
  case (Cons v vs)
  let ?l = "lastSavedMarkdown s"
  let ?s = "pushToHistory v s"
  from Cons.prems have vl: "v \<noteq> ?l" and da: "distinct_adj (v # vs)" by auto
  have len: "length (past ?s) \<le> 50" using Cons.prems(1) by (rule pushToHistory_length)
  have ls: "lastSavedMarkdown ?s = v" by simp
  have ih: "past (commits vs ?s) =
      drop (length (past ?s @ butlast (v # vs)) - 50) (past ?s @ butlast (v # vs))"
    using Cons.IH [OF len] da ls by simp
  have h: "past s @ butlast (?l # v # vs) = (past s @ [?l]) @ butlast (v # vs)" by simp
  show ?case
  proof (cases "length (past s) < 50")
    case True
    then have "past ?s = past s @ [?l]" using vl by (simp add: pushToHistory_past)
    then show ?thesis using ih h by simp
  next
    case False
    then have p: "past ?s = tl (past s @ [?l])" using vl by (simp add: pushToHistory_past)
    have ne: "past s @ [?l] \<noteq> []" by simp
    have "past ?s @ butlast (v # vs) = tl ((past s @ [?l]) @ butlast (v # vs))"
      unfolding p by (cases "past s") simp_all
    moreover have "50 < length ((past s @ [?l]) @ butlast (v # vs))" using False by simp
    ultimately show ?thesis using ih h drop_tl_window
      by (metis commits.simps(2))
  qed
qed

lemma setMarkdown_history [simp]:
  "past (setMarkdown v s) = past s" "future (setMarkdown v s) = future s"
  by (simp_all add: setMarkdown_def)

lemma step_bounded: "history_bounded s \<Longrightarrow> history_bounded (step s e)"
proof (cases e)
  case (Edit v)
  assume "history_bounded s"
  then show ?thesis using Edit by (simp add: history_bounded_def onMarkdownChange_def)
next
  case (Wait d)
  assume "history_bounded s"
  then show ?thesis using Wait
    by (auto simp: history_bounded_def advance_def fire_history_def pushToHistory_def Let_def
        split: option.splits)
next
  case Undo
  assume "history_bounded s"
  then show ?thesis using Undo
    by (cases "past s" rule: rev_cases) (auto simp: history_bounded_def handleUndo_def Let_def)
next
  case Redo
  assume "history_bounded s"
  then show ?thesis using Redo
    by (cases "future s" rule: rev_cases) (auto simp: history_bounded_def handleRedo_def Let_def)
next
  case (Import f)
  assume "history_bounded s"
  then show ?thesis using Import
    by (auto simp: history_bounded_def processFile_def show_toast_def
        split: read_outcome.splits option.splits)
next
  case (Snippet c)
  assume "history_bounded s"
  then show ?thesis using Snippet
    by (auto simp: history_bounded_def onMarkdownChange_def pushToHistory_def Let_def)
qed

lemma run_bounded: "history_bounded s \<Longrightarrow> history_bounded (run es s)"
  unfolding run_def by (induction es arbitrary: s) (simp_all add: step_bounded)

lemma initial_bounded: "history_bounded (initial_session dm saved)"
  by (simp add: history_bounded_def initial_session_def Let_def)

text \<open>
  C5: a commit on a past stack of at most 50 snapshots leaves at most 50, and on a
  stack of 50 it drops the oldest snapshot and appends the new one; committing 60
  distinct values on a fresh history leaves exactly 50 snapshots, the 10 oldest gone;
  and in every state a session reaches from its start the past stack has at most 50
  snapshots. \<open>pushToHistory\<close> has no failing branch.
\<close>

theorem history_cap:
  "(length (past s) \<le> 50 \<longrightarrow> length (past (pushToHistory v s)) \<le> 50)
   \<and> (length (past s) = 50 \<and> v \<noteq> lastSavedMarkdown s \<longrightarrow>
        past (pushToHistory v s) = tl (past s) @ [lastSavedMarkdown s])
   \<and> (past s = [] \<and> length vs = 60 \<and> distinct (lastSavedMarkdown s # vs) \<longrightarrow>
        past (commits vs s) = drop 10 (lastSavedMarkdown s # butlast vs)
        \<and> length (past (commits vs s)) = 50)
   \<and> length (past (run es (initial_session dm saved))) \<le> 50"
proof -
  have a: "length (past s) \<le> 50 \<longrightarrow> length (past (pushToHistory v s)) \<le> 50"
    by (simp add: pushToHistory_length)
  have b: "length (past s) = 50 \<and> v \<noteq> lastSavedMarkdown s \<longrightarrow>
        past (pushToHistory v s) = tl (past s) @ [lastSavedMarkdown s]"
    by (cases "past s") (auto simp: pushToHistory_past)
  have c: "past (commits vs s) = drop 10 (lastSavedMarkdown s # butlast vs)
        \<and> length (past (commits vs s)) = 50"
    if "past s = []" "length vs = 60" "distinct (lastSavedMarkdown s # vs)"
  proof -
    from that(3) have "distinct_adj (lastSavedMarkdown s # vs)" by (rule distinct_imp_distinct_adj)
    from commits_window [OF _ this] that(1,2)
    have "past (commits vs s) = drop 10 (lastSavedMarkdown s # butlast vs)" by simp
    then show ?thesis using that(2) by simp
  qed
  have d: "length (past (run es (initial_session dm saved))) \<le> 50"
    using run_bounded [OF initial_bounded, of es dm saved] by (simp add: history_bounded_def)
  from a b c d show ?thesis by blast
qed

theorem history_cap_witness:
  "length (past (initial_session [] None)) \<le> 50
   \<and> length (past (pushToHistory ''a'' (initial_session [] None))) \<le> 50
   \<and> length (past ((initial_session [] None)\<lparr>past := replicate 50 ''p''\<rparr>)) = 50
   \<and> ''a'' \<noteq> lastSavedMarkdown ((initial_session [] None)\<lparr>past := replicate 50 ''p''\<rparr>)
   \<and> past (pushToHistory ''a'' ((initial_session [] None)\<lparr>past := replicate 50 ''p''\<rparr>))
       = tl (replicate 50 ''p'') @ [[]]
   \<and> past (initial_session [] None) = []
   \<and> length (map (\<lambda>n. replicate n CHR ''x'') [1..<61]) = 60
   \<and> distinct (lastSavedMarkdown (initial_session [] None)
        # map (\<lambda>n. replicate n CHR ''x'') [1..<61])
   \<and> past (commits (map (\<lambda>n. replicate n CHR ''x'') [1..<61]) (initial_session [] None))
       = drop 10 ([] # butlast (map (\<lambda>n. replicate n CHR ''x'') [1..<61]))
   \<and> length (past (commits (map (\<lambda>n. replicate n CHR ''x'') [1..<61])
        (initial_session [] None))) = 50"
proof -
  let ?s = "initial_session [] None"
  let ?t = "?s\<lparr>past := replicate 50 ''p''\<rparr>"
  let ?vs = "map (\<lambda>n. replicate n CHR ''x'') [1..<61]"
  have i: "past ?s = []" "lastSavedMarkdown ?s = []"
    by (simp_all add: initial_session_def Let_def)
  have t: "length (past ?t) = 50" "''a'' \<noteq> lastSavedMarkdown ?t" "past ?t = replicate 50 ''p''"
    "lastSavedMarkdown ?t = []"
    by (simp_all add: initial_session_def Let_def)
  have l: "length ?vs = 60" by simp
  have "lastSavedMarkdown ?s # ?vs = map (\<lambda>n. replicate n CHR ''x'') [0..<61]"
    unfolding i by (simp add: upt_conv_Cons del: upt_Suc)
  moreover have "distinct (map (\<lambda>n. replicate n CHR ''x'') [0..<61])"
    by (simp add: distinct_map inj_on_def del: upt_Suc)
  ultimately have d: "distinct (lastSavedMarkdown ?s # ?vs)" by simp
  from history_cap [of ?s "''a''" ?vs] i l d
  have a: "length (past (pushToHistory ''a'' ?s)) \<le> 50"
    and c: "past (commits ?vs ?s) = drop 10 ([] # butlast ?vs)" "length (past (commits ?vs ?s)) = 50"
    by simp_all
  from history_cap [of ?t "''a''"] t
  have b: "past (pushToHistory ''a'' ?t) = tl (replicate 50 ''p'') @ [[]]" by simp
  from i t(1,2) l d a b c show ?thesis by simp
qed

text \<open>
  C6, as stated, at an import over a saved draft: the buffer is the imported text, and
  the persisted draft is still the old one, also 999 ms later; the write is the pending
  auto-save timer.
\<close>

theorem import_draft_counterexample:
  "draft (initial_session ''doc'' (Some ''old'')) = Some ''old''
   \<and> markdown (processFile \<lparr>name = ''notes.md'', reading = Loaded (Some ''new'')\<rparr>
        (initial_session ''doc'' (Some ''old''))) = ''new''
   \<and> draft (processFile \<lparr>name = ''notes.md'', reading = Loaded (Some ''new'')\<rparr>
        (initial_session ''doc'' (Some ''old''))) = Some ''old''
   \<and> autoSaveTimeout (processFile \<lparr>name = ''notes.md'', reading = Loaded (Some ''new'')\<rparr>
        (initial_session ''doc'' (Some ''old''))) = Some (1000, ''new'')
   \<and> draft (advance 999 (processFile \<lparr>name = ''notes.md'', reading = Loaded (Some ''new'')\<rparr>
        (initial_session ''doc'' (Some ''old'')))) = Some ''old''"
  by (simp add: initial_session_def Let_def processFile_def endsWith_def show_toast_def setMarkdown_def
      advance_def fire_history_def fire_autoSave_def)

text \<open>
  C6, amended: importing a \<open>.md\<close> or \<open>.txt\<close> file that reads as text replaces the buffer
  with that text and empties both stacks of the history, so that \<open>handleUndo\<close> and
  \<open>handleRedo\<close> right after it change nothing; the persisted draft is not written by the
  import: when the text differs from the buffer before, the debounced auto-save is set
  anew and writes the draft 1000 ms later.
\<close>

theorem import_resets:
  "(endsWith (name f) ''.md'' \<or> endsWith (name f) ''.txt'') \<and> reading f = Loaded (Some text) \<longrightarrow>
     (markdown (processFile f s) = text
      \<and> past (processFile f s) = [] \<and> future (processFile f s) = []
      \<and> lastSavedMarkdown (processFile f s) = text
      \<and> handleUndo (processFile f s) = processFile f s
      \<and> handleRedo (processFile f s) = processFile f s
      \<and> draft (processFile f s) = draft s
      \<and> (text \<noteq> markdown s \<longrightarrow>
           autoSaveTimeout (processFile f s) = Some (clock s + 1000, text)
           \<and> draft (advance d (processFile f s)) = (if 1000 \<le> d then Some text else draft s)))"
  by (auto simp: processFile_def show_toast_def setMarkdown_def handleUndo_def handleRedo_def
      advance_def fire_autoSave_def fire_history_def split: option.splits)

theorem import_resets_witness:
  "(endsWith (name \<lparr>name = ''notes.md'', reading = Loaded (Some ''new'')\<rparr>) ''.md''
      \<or> endsWith (name \<lparr>name = ''notes.md'', reading = Loaded (Some ''new'')\<rparr>) ''.txt'')
   \<and> reading \<lparr>name = ''notes.md'', reading = Loaded (Some ''new'')\<rparr> = Loaded (Some ''new'')
   \<and> ''new'' \<noteq> markdown (initial_session ''doc'' (Some ''old''))
   \<and> markdown (processFile \<lparr>name = ''notes.md'', reading = Loaded (Some ''new'')\<rparr>
        (initial_session ''doc'' (Some ''old''))) = ''new''
   \<and> past (processFile \<lparr>name = ''notes.md'', reading = Loaded (Some ''new'')\<rparr>
        (initial_session ''doc'' (Some ''old''))) = []
   \<and> future (processFile \<lparr>name = ''notes.md'', reading = Loaded (Some ''new'')\<rparr>
        (initial_session ''doc'' (Some ''old''))) = []
   \<and> handleUndo (processFile \<lparr>name = ''notes.md'', reading = Loaded (Some ''new'')\<rparr>
        (initial_session ''doc'' (Some ''old'')))
       = processFile \<lparr>name = ''notes.md'', reading = Loaded (Some ''new'')\<rparr>
        (initial_session ''doc'' (Some ''old''))
   \<and> draft (advance 1000 (processFile \<lparr>name = ''notes.md'', reading = Loaded (Some ''new'')\<rparr>
        (initial_session ''doc'' (Some ''old'')))) = Some ''new''"
proof -
  let ?f = "\<lparr>name = ''notes.md'', reading = Loaded (Some ''new'')\<rparr>"
  let ?s = "initial_session ''doc'' (Some ''old'')"
  have h1: "endsWith (name ?f) ''.md'' \<or> endsWith (name ?f) ''.txt''"
    by (simp add: endsWith_def)
  have h2: "reading ?f = Loaded (Some ''new'')" by simp
  have h3: "''new'' \<noteq> markdown ?s" by (simp add: initial_session_def Let_def)
  from import_resets [of ?f "''new''" ?s 1000] h1 h2 h3 show ?thesis
    by (simp add: endsWith_def)
qed

section \<open>Building a share reference\<close>

text \<open>
  C7, as stated, at a buffer of four million letters and a shortening service that
  answers with a URL of 2001 characters. The buffer is this long so that its generated
  URL exceeds 2000 characters under lz-string as well as under the stand-in: lz-string
  encodes a run of \<open>n\<close> equal letters in about the square root of \<open>2n\<close> codes, here
  in several thousand characters. The call succeeds, its over-long result is taken as the
  link and the document is not marked as too large.
\<close>

theorem long_short_link_counterexample:
  "length (generatedUrl plain_codec ''https://ghost.md'' (replicate 4000000 CHR ''a''))
     > MAX_SHAREABLE_URL_LENGTH
   \<and> shortenUrl (answering_network (Body (Some (replicate 2001 CHR ''s'')) None))
        (generatedUrl plain_codec ''https://ghost.md'' (replicate 4000000 CHR ''a''))
      = Inr (replicate 2001 CHR ''s'')
   \<and> length (replicate 2001 CHR ''s'') > MAX_SHAREABLE_URL_LENGTH
   \<and> shareUrl (handleShare plain_codec
        (answering_network (Body (Some (replicate 2001 CHR ''s'')) None))
        ''https://ghost.md'' (replicate 4000000 CHR ''a'') initial_share_dialog)
      = replicate 2001 CHR ''s''
   \<and> \<not> isUrlTooLarge (handleShare plain_codec
        (answering_network (Body (Some (replicate 2001 CHR ''s'')) None))
        ''https://ghost.md'' (replicate 4000000 CHR ''a'') initial_share_dialog)"
proof -
  have r: "replicate 2001 CHR ''s'' \<noteq> []" "replicate 4000000 CHR ''a'' \<noteq> []"
    by (simp_all add: replicate_empty)
  have s: "shortenUrl (answering_network (Body (Some (replicate 2001 CHR ''s'')) None)) u
      = Inr (replicate 2001 CHR ''s'')" for u
    using r by (simp add: shortenUrl_def answering_network_def Let_def)
  have g: "length (generatedUrl plain_codec ''https://ghost.md'' (replicate 4000000 CHR ''a''))
     > MAX_SHAREABLE_URL_LENGTH"
    using r by (simp add: generatedUrl_def compressMarkdown_def plain_codec_def
        MAX_SHAREABLE_URL_LENGTH_def)
  show ?thesis
    using g s by (simp add: handleShare_def Let_def MAX_SHAREABLE_URL_LENGTH_def)
qed

text \<open>
  C7, amended: when the generated URL has at most 2000 characters, the link is that URL
  and the document is not too large; when it has more and the shortening call returns
  a URL, the link is that URL, whatever its length, and the document is not too large;
  when it has more and the call fails, the document is too large and the link kept is
  the whole generated URL.
\<close>

theorem handleShare_outcomes:
  "(length (generatedUrl L origin md) \<le> MAX_SHAREABLE_URL_LENGTH \<longrightarrow>
      shareUrl (handleShare L N origin md st) = generatedUrl L origin md
      \<and> \<not> isUrlTooLarge (handleShare L N origin md st))
   \<and> (length (generatedUrl L origin md) > MAX_SHAREABLE_URL_LENGTH
       \<and> shortenUrl N (generatedUrl L origin md) = Inr shortUrl \<longrightarrow>
      shareUrl (handleShare L N origin md st) = shortUrl
      \<and> \<not> isUrlTooLarge (handleShare L N origin md st))
   \<and> (length (generatedUrl L origin md) > MAX_SHAREABLE_URL_LENGTH
       \<and> shortenUrl N (generatedUrl L origin md) = Inl err \<longrightarrow>
      shareUrl (handleShare L N origin md st) = generatedUrl L origin md
      \<and> isUrlTooLarge (handleShare L N origin md st))
   \<and> isShareModalOpen (handleShare L N origin md st)"
  by (auto simp: handleShare_def Let_def split: sum.splits)

theorem handleShare_outcomes_witness:
  "length (generatedUrl plain_codec ''https://ghost.md'' ''# hi'') \<le> MAX_SHAREABLE_URL_LENGTH
   \<and> shareUrl (handleShare plain_codec failing_network ''https://ghost.md'' ''# hi''
        initial_share_dialog) = ''https://ghost.md/#/view?c=# hi''
   \<and> \<not> isUrlTooLarge (handleShare plain_codec failing_network ''https://ghost.md'' ''# hi''
        initial_share_dialog)
   \<and> length (generatedUrl plain_codec ''https://ghost.md'' (replicate 4000000 CHR ''a''))
        > MAX_SHAREABLE_URL_LENGTH
   \<and> shortenUrl (answering_network (Body (Some ''https://is.gd/x'') None))
        (generatedUrl plain_codec ''https://ghost.md'' (replicate 4000000 CHR ''a''))
      = Inr ''https://is.gd/x''
   \<and> shareUrl (handleShare plain_codec (answering_network (Body (Some ''https://is.gd/x'') None))
        ''https://ghost.md'' (replicate 4000000 CHR ''a'') initial_share_dialog) = ''https://is.gd/x''
   \<and> \<not> isUrlTooLarge (handleShare plain_codec
        (answering_network (Body (Some ''https://is.gd/x'') None))
        ''https://ghost.md'' (replicate 4000000 CHR ''a'') initial_share_dialog)
   \<and> shortenUrl failing_network
        (generatedUrl plain_codec ''https://ghost.md'' (replicate 4000000 CHR ''a''))
      = Inl FetchRejected
   \<and> shareUrl (handleShare plain_codec failing_network
        ''https://ghost.md'' (replicate 4000000 CHR ''a'') initial_share_dialog)
      = generatedUrl plain_codec ''https://ghost.md'' (replicate 4000000 CHR ''a'')
   \<and> isUrlTooLarge (handleShare plain_codec failing_network
        ''https://ghost.md'' (replicate 4000000 CHR ''a'') initial_share_dialog)"
proof -
  let ?long = "replicate 4000000 CHR ''a''"
  let ?ok = "answering_network (Body (Some ''https://is.gd/x'') None)"
  have r: "?long \<noteq> []" by (simp add: replicate_empty)
  have d: "generatedUrl plain_codec ''https://ghost.md'' ''# hi'' = ''https://ghost.md/#/view?c=# hi''"
    by (simp add: generatedUrl_def compressMarkdown_def plain_codec_def)
  have d': "length (generatedUrl plain_codec ''https://ghost.md'' ''# hi'') \<le> MAX_SHAREABLE_URL_LENGTH"
    unfolding d by (simp add: MAX_SHAREABLE_URL_LENGTH_def)
  have g: "length (generatedUrl plain_codec ''https://ghost.md'' ?long) > MAX_SHAREABLE_URL_LENGTH"
    using r by (simp add: generatedUrl_def compressMarkdown_def plain_codec_def
        MAX_SHAREABLE_URL_LENGTH_def)
  have s: "shortenUrl ?ok (generatedUrl plain_codec ''https://ghost.md'' ?long) = Inr ''https://is.gd/x''"
    by (simp add: shortenUrl_def answering_network_def Let_def)
  have f: "shortenUrl failing_network (generatedUrl plain_codec ''https://ghost.md'' ?long)
      = Inl FetchRejected"
    by (simp add: shortenUrl_def failing_network_def Let_def)
  from handleShare_outcomes [where L = plain_codec and origin = "''https://ghost.md''"
      and md = "''# hi''" and N = failing_network and st = initial_share_dialog] d'
  have 1: "shareUrl (handleShare plain_codec failing_network ''https://ghost.md'' ''# hi''
        initial_share_dialog) = ''https://ghost.md/#/view?c=# hi''"
    "\<not> isUrlTooLarge (handleShare plain_codec failing_network ''https://ghost.md'' ''# hi''
        initial_share_dialog)"
    by (simp_all add: d)
  from handleShare_outcomes [where L = plain_codec and origin = "''https://ghost.md''"
      and md = ?long and N = ?ok and shortUrl = "''https://is.gd/x''"
      and st = initial_share_dialog] g s
  have 2: "shareUrl (handleShare plain_codec ?ok ''https://ghost.md'' ?long initial_share_dialog)
        = ''https://is.gd/x''"
    "\<not> isUrlTooLarge (handleShare plain_codec ?ok ''https://ghost.md'' ?long initial_share_dialog)"
    by simp_all
  from handleShare_outcomes [where L = plain_codec and origin = "''https://ghost.md''"
      and md = ?long and N = failing_network and err = FetchRejected
      and st = initial_share_dialog] g f
  have 3: "shareUrl (handleShare plain_codec failing_network ''https://ghost.md'' ?long
        initial_share_dialog) = generatedUrl plain_codec ''https://ghost.md'' ?long"
    "isUrlTooLarge (handleShare plain_codec failing_network ''https://ghost.md'' ?long
        initial_share_dialog)"
    by simp_all
  from d' g s f 1 2 3 show ?thesis by blast
qed

section \<open>Synchronising the two panes\<close>







section \<open>Searching the buffer\<close>

lemma search_loop_returns:
  assumes wb: "\<And>i index len. match_from E r text i = Some (index, len) \<Longrightarrow> i \<le> index"
    and acc: "sorted_wrt (\<lambda>a b. start a < start b) matches" "\<forall>m \<in> set matches. start m < lastIndex"
  shows "\<exists>ms. search_loop E r text lastIndex matches = Some ms
              \<and> sorted_wrt (\<lambda>a b. start a < start b) ms"
  using acc
proof (induction "Suc (length text) - lastIndex" arbitrary: lastIndex matches rule: less_induct)
  case less
  show ?case
  proof (cases "lastIndex > length text")
    case True
    then show ?thesis using less.prems(1) by (subst search_loop.simps) simp
  next
    case inside: False
    show ?thesis
    proof (cases "match_from E r text lastIndex")
      case None
      then show ?thesis using inside less.prems(1) by (subst search_loop.simps) simp
    next
      case (Some m)
      obtain index len where m: "m = (index, len)" by (cases m)
      from wb Some m have le: "lastIndex \<le> index" by simp
      let ?next = "if index = index + len then index + len + 1 else index + len"
      let ?acc = "matches @ [\<lparr>start = index, end' = index + len\<rparr>]"
      have gt: "index < ?next" by simp
      have dec: "Suc (length text) - ?next < Suc (length text) - lastIndex"
        using inside le gt by linarith
      have s1: "sorted_wrt (\<lambda>a b. start a < start b) ?acc"
        using less.prems le by (auto simp: sorted_wrt_append)
      have s2: "\<forall>m \<in> set ?acc. start m < ?next"
        using less.prems(2) le gt by auto
      from less.hyps [OF dec s1 s2]
      obtain ms where "search_loop E r text ?next ?acc = Some ms"
        "sorted_wrt (\<lambda>a b. start a < start b) ms" by blast
      then show ?thesis using inside Some m
        by (subst search_loop.simps) simp
    qed
  qed
qed







text \<open>
  C10: with an engine whose matches never start before the position it is run from,
  as the platform's, \<open>performSearch\<close> returns a list on every text, pattern and flag;
  after a match of length zero the loop continues one position after it.
\<close>

theorem performSearch_terminates:
  assumes "\<forall>r i index len. match_from E r text i = Some (index, len) \<longrightarrow> i \<le> index"
  shows "(\<exists>ms. performSearch E text term matchCase = Some ms)
       \<and> (lastIndex \<le> length text \<and> match_from E r text lastIndex = Some (index, 0) \<longrightarrow>
            search_loop E r text lastIndex matches
              = search_loop E r text (index + 1) (matches @ [\<lparr>start = index, end' = index\<rparr>]))"
proof -
  have wb: "\<And>r i index len. match_from E r text i = Some (index, len) \<Longrightarrow> i \<le> index"
    using assms by blast
  have "\<exists>ms. search_loop E r text 0 [] = Some ms" for r
    using search_loop_returns [of E r "text" "[]" 0] wb by auto
  then have a: "\<exists>ms. performSearch E text term matchCase = Some ms"
    by (simp add: performSearch_def split: option.splits)
  have b: "lastIndex \<le> length text \<and> match_from E r text lastIndex = Some (index, 0) \<longrightarrow>
            search_loop E r text lastIndex matches
              = search_loop E r text (index + 1) (matches @ [\<lparr>start = index, end' = index\<rparr>])"
    by (subst search_loop.simps) auto
  from a b show ?thesis by blast
qed

theorem performSearch_terminates_witness:
  "(\<exists>ms. performSearch empty_match_engine ''abc'' ''a*'' False = Some ms)
   \<and> (0::nat) \<le> length ''abc''
   \<and> match_from empty_match_engine () ''abc'' 0 = Some (0, 0)
   \<and> search_loop empty_match_engine () ''abc'' 0 []
       = search_loop empty_match_engine () ''abc'' (0 + 1) ([] @ [\<lparr>start = 0, end' = 0\<rparr>])
   \<and> performSearch empty_match_engine ''abc'' ''a*'' False
       = Some [\<lparr>start = 0, end' = 0\<rparr>, \<lparr>start = 1, end' = 1\<rparr>,
               \<lparr>start = 2, end' = 2\<rparr>, \<lparr>start = 3, end' = 3\<rparr>]"
proof -
  have f: "\<forall>r i index len. match_from empty_match_engine r ''abc'' i = Some (index, len) \<longrightarrow> i \<le> index"
    by (simp add: empty_match_engine_def)
  have m: "match_from empty_match_engine () ''abc'' i = Some (i, 0)" for i
    by (simp add: empty_match_engine_def)
  have l: "length ''abc'' = 3" by simp
  have 4: "search_loop empty_match_engine () ''abc'' 4 ms = Some ms" for ms
    by (subst search_loop.simps) simp
  have 3: "search_loop empty_match_engine () ''abc'' 3 ms
      = Some (ms @ [\<lparr>start = 3, end' = 3\<rparr>])" for ms
    using m [of 3] 4 by (subst search_loop.simps) simp
  have 2: "search_loop empty_match_engine () ''abc'' 2 ms
      = Some (ms @ [\<lparr>start = 2, end' = 2\<rparr>, \<lparr>start = 3, end' = 3\<rparr>])" for ms
    using m [of 2] 3 by (subst search_loop.simps) simp
  have 1: "search_loop empty_match_engine () ''abc'' 1 ms
      = Some (ms @ [\<lparr>start = 1, end' = 1\<rparr>, \<lparr>start = 2, end' = 2\<rparr>,
          \<lparr>start = 3, end' = 3\<rparr>])" for ms
    using m [of 1] 2 by (subst search_loop.simps) (simp add: numeral_2_eq_2 [symmetric])
  have 0: "search_loop empty_match_engine () ''abc'' 0 []
      = Some [\<lparr>start = 0, end' = 0\<rparr>, \<lparr>start = 1, end' = 1\<rparr>, \<lparr>start = 2, end' = 2\<rparr>,
          \<lparr>start = 3, end' = 3\<rparr>]"
    using m [of 0] 1 by (subst search_loop.simps) simp
  have c: "compile empty_match_engine ''a*'' (\<not> False) = Some ()"
    by (simp add: empty_match_engine_def)
  from performSearch_terminates [OF f, THEN conjunct1, of "''a*''" False]
  have e: "\<exists>ms. performSearch empty_match_engine ''abc'' ''a*'' False = Some ms" .
  have "performSearch empty_match_engine ''abc'' ''a*'' False
       = Some [\<lparr>start = 0, end' = 0\<rparr>, \<lparr>start = 1, end' = 1\<rparr>,
               \<lparr>start = 2, end' = 2\<rparr>, \<lparr>start = 3, end' = 3\<rparr>]"
    using c 0 by (simp add: performSearch_def)
  moreover have s: "search_loop empty_match_engine () ''abc'' 0 []
       = search_loop empty_match_engine () ''abc'' (0 + 1) ([] @ [\<lparr>start = 0, end' = 0\<rparr>])"
    using performSearch_terminates [OF f, THEN conjunct2, of 0 "()" 0 "[]"] m [of 0] by simp
  ultimately show ?thesis using e m [of 0] by simp
qed

end
